theory Spec2Isabelle
  imports Main
begin

section \<open>The scrape route: data model\<close>

text \<open>
  The route of \<^verbatim>\<open>src/routes/scrape.ts\<close> drives an external browser engine. The
  engine is not part of the repository: what it answers to each call, and how long each
  call takes, is an input of the model. The handler, the retry loop and one scrape attempt
  are translated from the source as state-passing functions over a \<open>world\<close> that records
  the clock, the calls made to the engine, the browsers that are still open and the
  console.

  The values the engine throws are \<^verbatim>\<open>Error\<close> objects, as Playwright's are; an
  \<^verbatim>\<open>Error\<close> object is truthy whatever its message. The dynamic
  \<^verbatim>\<open>import('playwright')\<close> resolves: the package is a dependency of the service. Time
  is counted in milliseconds, and only engine calls take time.
\<close>

text \<open>A thrown value: a JavaScript \<^verbatim>\<open>Error\<close> object with its \<^verbatim>\<open>message\<close>.\<close>

datatype error = Error (message: string)

text \<open>
  An awaited engine call: the time it takes until its promise settles, and how it settles
  (\<open>Inl\<close>: rejected with an error, \<open>Inr\<close>: resolved with a value).
\<close>

type_synonym 'a call = "nat \<times> (error + 'a)"

text \<open>
  What the engine does during one attempt. \<open>evalMeta\<close> is the call
  \<^verbatim>\<open>page.$eval('head > meta[name="description"], head > meta[property="og:description"]', el => el.getAttribute('content'))\<close>:
  it rejects when no element matches, and resolves with the attribute (\<open>None\<close> is
  \<^verbatim>\<open>null\<close>) otherwise. \<open>evalH1\<close> is
  \<^verbatim>\<open>page.$eval('h1', el => el.textContent?.trim())\<close>: it rejects when there is no
  \<^verbatim>\<open>h1\<close>, and resolves with the trimmed text (\<open>None\<close> is \<^verbatim>\<open>undefined\<close>)
  otherwise. \<open>close k\<close> is the \<open>k\<close>-th call of \<^verbatim>\<open>browser.close()\<close> of the attempt,
  counted from 0.
\<close>

record engine =
  launch :: "unit call"
  newContext :: "unit call"
  newPage :: "unit call"
  goto :: "unit call"
  page_title :: "string call"
  evalMeta :: "string option call"
  evalH1 :: "string option call"
  close :: "nat \<Rightarrow> unit call"

text \<open>
  The calls that reach the engine, with the arguments that vary: the user agent of
  \<^verbatim>\<open>newContext\<close>, the url and the timeout of \<^verbatim>\<open>goto\<close>. The launch is always
  \<^verbatim>\<open>{ headless: true }\<close> and the navigation always waits for \<^verbatim>\<open>networkidle\<close>. An
  event is a call with the time at which it is made and the attempt that makes it (0 for
  the import, which no attempt makes).
\<close>

datatype op =
    Import
  | Launch
  | NewContext "string option"
  | NewPage
  | Goto "string option" nat
  | Title
  | EvalMeta
  | EvalH1
  | Close

record event =
  at :: nat
  by_attempt :: nat
  call :: op

text \<open>Console lines of the two route files.\<close>

datatype log =
    Log_starting nat "string option"
  | Log_successful nat
  | Warn_scrape_failed nat string
  | Warn_attempt_failed nat string
  | Error_timed_out
  | Error_scraper string

record world =
  clock :: nat
  events :: "event list"
  open_browsers :: "nat list"
  console :: "log list"

text \<open>The value of the \<^verbatim>\<open>h1\<close> field: \<^verbatim>\<open>string | undefined | null\<close>.\<close>

datatype h1_value = Undefined | Null | Text string

record scrape_result =
  title :: "string option"
  metaDescription :: "string option"
  h1 :: h1_value
  status :: nat

text \<open>
  The JSON bodies the handler sends: the scrape result, or an object with an
  \<^verbatim>\<open>error\<close> field and, for status 500, a \<^verbatim>\<open>details\<close> field.
\<close>

datatype body = Result_body scrape_result | Error_body string "string option"

record response =
  http_status :: nat
  body :: body

section \<open>Constants\<close>

definition GLOBAL_TIMEOUT_MS :: nat where
  "GLOBAL_TIMEOUT_MS = 20000"

definition NAVIGATION_TIMEOUT_MS :: nat where
  "NAVIGATION_TIMEOUT_MS = 15000"

definition MAX_ATTEMPTS :: nat where
  "MAX_ATTEMPTS = 2"

section \<open>Awaiting, throwing and catching\<close>

type_synonym 'a io = "world \<Rightarrow> (error + 'a) \<times> world"

definition resolve :: "'a \<Rightarrow> 'a io" where
  "resolve x w = (Inr x, w)"

definition reject :: "error \<Rightarrow> 'a io" where
  "reject e w = (Inl e, w)"

text \<open>\<^verbatim>\<open>const x = await m; f x\<close>: a rejection of \<open>m\<close> is thrown past \<open>f\<close>.\<close>

definition await :: "'a io \<Rightarrow> ('a \<Rightarrow> 'b io) \<Rightarrow> 'b io" where
  "await m f w = (case m w of (Inl e, w') \<Rightarrow> (Inl e, w') | (Inr x, w') \<Rightarrow> f x w')"

text \<open>\<^verbatim>\<open>try { m } catch (err) { h err }\<close> and \<^verbatim>\<open>m.catch(h)\<close>.\<close>

definition try_catch :: "'a io \<Rightarrow> (error \<Rightarrow> 'a io) \<Rightarrow> 'a io" where
  "try_catch m h w = (case m w of (Inl e, w') \<Rightarrow> h e w' | (Inr x, w') \<Rightarrow> (Inr x, w'))"

definition console_write :: "log \<Rightarrow> unit io" where
  "console_write l w = (Inr (), w\<lparr>console := console w @ [l]\<rparr>)"

text \<open>
  A call to the engine is recorded with the time at which it is made; the clock then
  advances by the time the call takes.
\<close>

definition engine_call :: "nat \<Rightarrow> op \<Rightarrow> 'a call \<Rightarrow> 'a io" where
  "engine_call n c r w =
     (snd r, w\<lparr>clock := clock w + fst r,
               events := events w @ [\<lparr>at = clock w, by_attempt = n, call = c\<rparr>]\<rparr>)"

text \<open>
  \<^verbatim>\<open>playwright.chromium.launch({ headless: true })\<close>: when it resolves, the attempt owns
  an open browser.
\<close>

definition browser_launch :: "nat \<Rightarrow> engine \<Rightarrow> unit io" where
  "browser_launch n e =
     await (engine_call n Launch (launch e))
       (\<lambda>_ w. (Inr (), w\<lparr>open_browsers := n # open_browsers w\<rparr>))"

text \<open>
  \<^verbatim>\<open>browser.close()\<close>: when it resolves, the browser of the attempt is no longer open.
  The engine's answer may depend on how often the attempt has called it before.
\<close>

definition closes_so_far :: "nat \<Rightarrow> world \<Rightarrow> nat" where
  "closes_so_far n w =
     length (filter (\<lambda>ev. by_attempt ev = n \<and> call ev = Close) (events w))"

definition browser_close :: "nat \<Rightarrow> engine \<Rightarrow> unit io" where
  "browser_close n e w =
     await (engine_call n Close (close e (closes_so_far n w)))
       (\<lambda>_ w'. (Inr (), w'\<lparr>open_browsers := removeAll n (open_browsers w')\<rparr>)) w"

text \<open>\<^verbatim>\<open>userAgent || undefined\<close>: the empty string is falsy.\<close>

definition or_undefined :: "string option \<Rightarrow> string option" where
  "or_undefined ua = (case ua of None \<Rightarrow> None | Some s \<Rightarrow> if s = [] then None else Some s)"

text \<open>\<^verbatim>\<open>s.includes(t)\<close>: \<open>t\<close> occurs in \<open>s\<close> as a contiguous substring.\<close>

fun startsWith :: "string \<Rightarrow> string \<Rightarrow> bool" where
  "startsWith s [] = True"
| "startsWith [] (c # t) = False"
| "startsWith (d # s) (c # t) = (d = c \<and> startsWith s t)"

fun str_includes :: "string \<Rightarrow> string \<Rightarrow> bool" where
  "str_includes [] t = startsWith [] t"
| "str_includes (d # s) t = (startsWith (d # s) t \<or> str_includes s t)"

section \<open>One scrape attempt (\<^verbatim>\<open>attemptScrape\<close>, scrape.ts lines 62 to 96)\<close>

definition attemptScrape ::
  "string option \<Rightarrow> string option \<Rightarrow> engine \<Rightarrow> nat \<Rightarrow> scrape_result io" where
  "attemptScrape url userAgent e attemptNumber =
     await (console_write (Log_starting attemptNumber url)) (\<lambda>_.
     await (browser_launch attemptNumber e) (\<lambda>_.
     await (engine_call attemptNumber (NewContext (or_undefined userAgent)) (newContext e)) (\<lambda>_.
     await (engine_call attemptNumber NewPage (newPage e)) (\<lambda>_.
     try_catch
       (await (engine_call attemptNumber (Goto url NAVIGATION_TIMEOUT_MS) (goto e)) (\<lambda>_.
        await (engine_call attemptNumber Title (page_title e)) (\<lambda>t.
        await (try_catch (engine_call attemptNumber EvalMeta (evalMeta e))
                 (\<lambda>_. resolve None)) (\<lambda>md.
        await (try_catch
                 (await (engine_call attemptNumber EvalH1 (evalH1 e))
                    (\<lambda>v. resolve (case v of None \<Rightarrow> Undefined | Some s \<Rightarrow> Text s)))
                 (\<lambda>_. resolve Null)) (\<lambda>h.
        await (browser_close attemptNumber e) (\<lambda>_.
        await (console_write (Log_successful attemptNumber)) (\<lambda>_.
        resolve \<lparr>title = (if t = [] then None else Some t),
                 metaDescription = md, h1 = h, status = 200\<rparr>)))))))
       (\<lambda>err.
        await (console_write (Warn_scrape_failed attemptNumber (message err))) (\<lambda>_.
        await (browser_close attemptNumber e) (\<lambda>_.
        reject err)))))))"

section \<open>The retry loop (\<^verbatim>\<open>overallPromise\<close>, scrape.ts lines 102 to 115)\<close>

text \<open>
  \<^verbatim>\<open>for (let attempt = 1; attempt <= MAX_ATTEMPTS; attempt++)\<close>, with
  \<^verbatim>\<open>lastError\<close> carried along (\<open>None\<close> is \<^verbatim>\<open>null\<close>). An \<^verbatim>\<open>Error\<close> object is
  truthy, so \<^verbatim>\<open>lastError || new Error('Unknown error')\<close> takes the fallback only
  when no attempt has failed.
\<close>

function retry_loop ::
  "string option \<Rightarrow> string option \<Rightarrow> (nat \<Rightarrow> engine) \<Rightarrow> nat \<Rightarrow> error option
     \<Rightarrow> scrape_result io" where
  "retry_loop url userAgent eng attempt lastError w =
     (if attempt \<le> MAX_ATTEMPTS then
        (case attemptScrape url userAgent (eng attempt) attempt w of
           (Inr result, w') \<Rightarrow> (Inr result, w')
         | (Inl err, w') \<Rightarrow> retry_loop url userAgent eng (attempt + 1) (Some err) w')
      else
        (Inl (case lastError of Some err \<Rightarrow> err | None \<Rightarrow> Error ''Unknown error''), w))"
  by pat_completeness auto
termination
  by (relation "measure (\<lambda>(url, userAgent, eng, attempt, lastError, w). MAX_ATTEMPTS + 1 - attempt)")
     auto

definition overallPromise ::
  "string option \<Rightarrow> string option \<Rightarrow> (nat \<Rightarrow> engine) \<Rightarrow> scrape_result io" where
  "overallPromise url userAgent eng = retry_loop url userAgent eng 1 None"

section \<open>The deadline and the handler (scrape.ts lines 46 to 137)\<close>

text \<open>
  \<^verbatim>\<open>Promise.race([overallPromise, timeoutPromise])\<close>: both promises are created at
  \<open>started\<close>. The work wins when it settles strictly before the timer fires; otherwise the
  race rejects with \<^verbatim>\<open>new Error('Timeout')\<close>; when both settle in the same
  millisecond the timer wins. The work is not cancelled: the world of the result is the
  world once the work has settled, and a console line of the handler is put after the
  lines of the work.
\<close>

definition promise_race :: "nat \<Rightarrow> (error + scrape_result) \<times> world \<Rightarrow> error + scrape_result" where
  "promise_race started r =
     (if clock (snd r) - started < GLOBAL_TIMEOUT_MS then fst r else Inl (Error ''Timeout''))"

definition import_playwright :: "world \<Rightarrow> world" where
  "import_playwright w = snd (engine_call 0 Import (0, Inr ()) w)"

definition send :: "nat \<Rightarrow> body \<Rightarrow> response" where
  "send code b = \<lparr>http_status = code, body = b\<rparr>"

text \<open>
  \<open>isValidHttpUrl\<close> is imported from \<^verbatim>\<open>../utils/validateUrl\<close>; the handler takes it as
  a parameter.
\<close>

definition handler ::
  "(string option \<Rightarrow> bool) \<Rightarrow> (nat \<Rightarrow> engine) \<Rightarrow> string option \<Rightarrow> string option
     \<Rightarrow> world \<Rightarrow> response \<times> world" where
  "handler isValidHttpUrl eng url userAgent w =
     (if \<not> isValidHttpUrl url then (send 400 (Error_body ''Invalid URL'' None), w)
      else
        let w1 = import_playwright w;
            settled = overallPromise url userAgent eng w1
        in case promise_race (clock w1) settled of
             Inr result \<Rightarrow> (send 200 (Result_body result), snd settled)
           | Inl err \<Rightarrow>
               let msg = (if message err = [] then ''Scraping failed'' else message err)
               in if str_includes msg ''Timeout''
                  then (send 504 (Error_body ''Timeout'' None),
                        snd (console_write Error_timed_out (snd settled)))
                  else (send 500 (Error_body ''Scraping failed'' (Some msg)),
                        snd (console_write (Error_scraper msg) (snd settled))))"

section \<open>The second route file (\<^verbatim>\<open>src/unnamed/part_001\<close>)\<close>

text \<open>
  The same route with other console output: the attempt writes nothing, the retry loop
  warns in its \<^verbatim>\<open>catch\<close>, and the handler writes nothing.
\<close>

definition attemptScrape_part_001 ::
  "string option \<Rightarrow> string option \<Rightarrow> engine \<Rightarrow> nat \<Rightarrow> scrape_result io" where
  "attemptScrape_part_001 url userAgent e attemptNumber =
     await (browser_launch attemptNumber e) (\<lambda>_.
     await (engine_call attemptNumber (NewContext (or_undefined userAgent)) (newContext e)) (\<lambda>_.
     await (engine_call attemptNumber NewPage (newPage e)) (\<lambda>_.
     try_catch
       (await (engine_call attemptNumber (Goto url NAVIGATION_TIMEOUT_MS) (goto e)) (\<lambda>_.
        await (engine_call attemptNumber Title (page_title e)) (\<lambda>t.
        await (try_catch (engine_call attemptNumber EvalMeta (evalMeta e))
                 (\<lambda>_. resolve None)) (\<lambda>md.
        await (try_catch
                 (await (engine_call attemptNumber EvalH1 (evalH1 e))
                    (\<lambda>v. resolve (case v of None \<Rightarrow> Undefined | Some s \<Rightarrow> Text s)))
                 (\<lambda>_. resolve Null)) (\<lambda>h.
        await (browser_close attemptNumber e) (\<lambda>_.
        resolve \<lparr>title = (if t = [] then None else Some t),
                 metaDescription = md, h1 = h, status = 200\<rparr>))))))
       (\<lambda>err.
        await (browser_close attemptNumber e) (\<lambda>_.
        reject err)))))"

function retry_loop_part_001 ::
  "string option \<Rightarrow> string option \<Rightarrow> (nat \<Rightarrow> engine) \<Rightarrow> nat \<Rightarrow> error option
     \<Rightarrow> scrape_result io" where
  "retry_loop_part_001 url userAgent eng attempt lastError w =
     (if attempt \<le> MAX_ATTEMPTS then
        (case attemptScrape_part_001 url userAgent (eng attempt) attempt w of
           (Inr result, w') \<Rightarrow> (Inr result, w')
         | (Inl err, w') \<Rightarrow>
             retry_loop_part_001 url userAgent eng (attempt + 1) (Some err)
               (snd (console_write (Warn_attempt_failed attempt (message err)) w')))
      else
        (Inl (case lastError of Some err \<Rightarrow> err | None \<Rightarrow> Error ''Unknown error''), w))"
  by pat_completeness auto
termination
  by (relation "measure (\<lambda>(url, userAgent, eng, attempt, lastError, w). MAX_ATTEMPTS + 1 - attempt)")
     auto

definition overallPromise_part_001 ::
  "string option \<Rightarrow> string option \<Rightarrow> (nat \<Rightarrow> engine) \<Rightarrow> scrape_result io" where
  "overallPromise_part_001 url userAgent eng = retry_loop_part_001 url userAgent eng 1 None"

definition handler_part_001 ::
  "(string option \<Rightarrow> bool) \<Rightarrow> (nat \<Rightarrow> engine) \<Rightarrow> string option \<Rightarrow> string option
     \<Rightarrow> world \<Rightarrow> response \<times> world" where
  "handler_part_001 isValidHttpUrl eng url userAgent w =
     (if \<not> isValidHttpUrl url then (send 400 (Error_body ''Invalid URL'' None), w)
      else
        let w1 = import_playwright w;
            settled = overallPromise_part_001 url userAgent eng w1
        in case promise_race (clock w1) settled of
             Inr result \<Rightarrow> (send 200 (Result_body result), snd settled)
           | Inl err \<Rightarrow>
               let msg = (if message err = [] then ''Scraping failed'' else message err)
               in if str_includes msg ''Timeout''
                  then (send 504 (Error_body ''Timeout'' None), snd settled)
                  else (send 500 (Error_body ''Scraping failed'' (Some msg)), snd settled))"

section \<open>Observations on a run\<close>

text \<open>The engine calls made between two worlds, and the attempts started in a trace.\<close>

definition new_events :: "world \<Rightarrow> world \<Rightarrow> event list" where
  "new_events w w' = drop (length (events w)) (events w')"

definition attempts_started :: "event list \<Rightarrow> nat" where
  "attempts_started evs = length (filter (\<lambda>ev. call ev = Launch) evs)"

text \<open>The world without its console: what the engine and the caller can observe.\<close>

definition quiet :: "world \<Rightarrow> world" where
  "quiet w = w\<lparr>console := []\<rparr>"

text \<open>
  Two computations that agree on their outcome and on everything but the console,
  from worlds that agree on everything but the console.
\<close>

definition sim :: "'a io \<Rightarrow> 'a io \<Rightarrow> bool" where
  "sim m m' \<longleftrightarrow>
     (\<forall>w w'. quiet w = quiet w' \<longrightarrow>
        fst (m w) = fst (m' w') \<and> quiet (snd (m w)) = quiet (snd (m' w')))"

text \<open>
  A computation whose engine calls are all made by attempt \<open>n\<close>, none of them a launch,
  each between the time the computation starts and the time it settles.
\<close>

definition traced :: "nat \<Rightarrow> 'a io \<Rightarrow> bool" where
  "traced n m \<longleftrightarrow>
     (\<forall>w. clock w \<le> clock (snd (m w)) \<and>
          (\<exists>evs. events (snd (m w)) = events w @ evs \<and>
             (\<forall>ev\<in>set evs. by_attempt ev = n \<and> call ev \<noteq> Launch \<and> clock w \<le> at ev
                \<and> at ev \<le> clock (snd (m w)))))"

text \<open>A computation whose result, when it resolves, satisfies \<open>P\<close>.\<close>

definition yields :: "('a \<Rightarrow> bool) \<Rightarrow> 'a io \<Rightarrow> bool" where
  "yields P m \<longleftrightarrow> (\<forall>w x. fst (m w) = Inr x \<longrightarrow> P x)"

section \<open>Example requests\<close>

definition fresh :: world where
  "fresh = \<lparr>clock = 0, events = [], open_browsers = [], console = []\<rparr>"

definition example_url :: "string option" where
  "example_url = Some ''https://example.com''"

text \<open>A validator in the spirit of the missing helper, used on concrete requests only.\<close>

definition http_prefix :: "string option \<Rightarrow> bool" where
  "http_prefix u =
     (case u of None \<Rightarrow> False
      | Some s \<Rightarrow> startsWith s ''http://'' \<or> startsWith s ''https://'')"

text \<open>
  A page titled "Example Domain" with neither a description meta tag nor an
  \<^verbatim>\<open>h1\<close>: both \<^verbatim>\<open>$eval\<close> calls reject.
\<close>

definition example_page :: engine where
  "example_page =
     \<lparr>launch = (300, Inr ()), newContext = (20, Inr ()), newPage = (30, Inr ()),
      goto = (800, Inr ()), page_title = (5, Inr ''Example Domain''),
      evalMeta = (5, Inl (Error ''page.$eval: Failed to find element matching selector'')),
      evalH1 = (5, Inl (Error ''page.$eval: Failed to find element matching selector h1'')),
      close = (\<lambda>_. (40, Inr ()))\<rparr>"

definition refused :: engine where
  "refused = example_page\<lparr>goto := (100, Inl (Error ''page.goto: net::ERR_CONNECTION_REFUSED''))\<rparr>"

definition navigation_timeout :: engine where
  "navigation_timeout =
     example_page\<lparr>goto := (15000, Inl (Error ''page.goto: Timeout 15000ms exceeded.''))\<rparr>"

definition context_fails :: engine where
  "context_fails =
     example_page\<lparr>newContext := (20, Inl (Error ''browser.newContext: Target closed''))\<rparr>"

definition title_fails :: engine where
  "title_fails =
     example_page\<lparr>page_title := (5, Inl (Error ''page.title: Execution context was destroyed''))\<rparr>"


text \<open>The first attempt is refused at once, the second runs into the navigation timeout.\<close>

definition refused_then_timeout :: "nat \<Rightarrow> engine" where
  "refused_then_timeout n = (if n = 1 then refused else navigation_timeout)"

text \<open>The first attempt is refused at once, the second loads the example page.\<close>

definition refused_then_page :: "nat \<Rightarrow> engine" where
  "refused_then_page n = (if n = 1 then refused else example_page)"

section \<open>The retry loop, unrolled\<close>

lemma retry_loop_3:
  "retry_loop url ua eng 3 le w =
     (Inl (case le of Some err \<Rightarrow> err | None \<Rightarrow> Error ''Unknown error''), w)"
  by (simp add: retry_loop.simps[of url ua eng 3] MAX_ATTEMPTS_def)

lemma retry_loop_2:
  "retry_loop url ua eng 2 le w =
     (case attemptScrape url ua (eng 2) 2 w of
        (Inr r, w2) \<Rightarrow> (Inr r, w2)
      | (Inl e2, w2) \<Rightarrow> (Inl e2, w2))"
  by (simp add: retry_loop.simps[of url ua eng 2] retry_loop_3 MAX_ATTEMPTS_def
      split: prod.splits sum.splits)

lemma overallPromise_unroll:
  "overallPromise url ua eng w =
     (case attemptScrape url ua (eng 1) 1 w of
        (Inr r, w1) \<Rightarrow> (Inr r, w1)
      | (Inl e1, w1) \<Rightarrow>
          (case attemptScrape url ua (eng 2) 2 w1 of
             (Inr r, w2) \<Rightarrow> (Inr r, w2)
           | (Inl e2, w2) \<Rightarrow> (Inl e2, w2)))"
proof -
  have "(1::nat) + 1 = 2" by simp
  then show ?thesis
    unfolding overallPromise_def
    by (subst retry_loop.simps) (simp only: retry_loop_2 MAX_ATTEMPTS_def, simp)
qed

section \<open>The engine calls of an attempt\<close>

lemma traced_resolve: "traced n (resolve x)"
  by (simp add: traced_def resolve_def)

lemma traced_reject: "traced n (reject x)"
  by (simp add: traced_def reject_def)

lemma traced_console_write: "traced n (console_write l)"
  by (simp add: traced_def console_write_def)

lemma traced_engine_call: "c \<noteq> Launch \<Longrightarrow> traced n (engine_call n c r)"
  by (simp add: traced_def engine_call_def)

lemma traced_browser_close: "traced n (browser_close n e)"
  by (auto simp: traced_def browser_close_def engine_call_def await_def split: sum.splits)

lemma traced_seq:
  assumes m: "traced n m" and w': "snd (m w) = w'" and f: "traced n f"
  shows "clock w \<le> clock (snd (f w')) \<and>
          (\<exists>evs. events (snd (f w')) = events w @ evs \<and>
             (\<forall>ev\<in>set evs. by_attempt ev = n \<and> call ev \<noteq> Launch \<and> clock w \<le> at ev
                \<and> at ev \<le> clock (snd (f w'))))"
proof -
  from m w' obtain evs1 where 1: "clock w \<le> clock w'" "events w' = events w @ evs1"
    "\<forall>ev\<in>set evs1. by_attempt ev = n \<and> call ev \<noteq> Launch \<and> clock w \<le> at ev \<and> at ev \<le> clock w'"
    unfolding traced_def by blast
  from f obtain evs2 where 2: "clock w' \<le> clock (snd (f w'))" "events (snd (f w')) = events w' @ evs2"
    "\<forall>ev\<in>set evs2. by_attempt ev = n \<and> call ev \<noteq> Launch \<and> clock w' \<le> at ev \<and> at ev \<le> clock (snd (f w'))"
    unfolding traced_def by blast
  have "events (snd (f w')) = events w @ (evs1 @ evs2)" using 1 2 by simp
  moreover have "\<forall>ev\<in>set (evs1 @ evs2). by_attempt ev = n \<and> call ev \<noteq> Launch \<and> clock w \<le> at ev
                \<and> at ev \<le> clock (snd (f w'))"
    using 1 2 by fastforce
  ultimately show ?thesis using 1(1) 2(1) by (meson le_trans)
qed

lemma traced_await:
  assumes m: "traced n m" and f: "\<And>x. traced n (f x)"
  shows "traced n (await m f)"
  unfolding traced_def
proof
  fix w
  obtain r w' where mw: "m w = (r, w')" by (cases "m w")
  show "clock w \<le> clock (snd (await m f w)) \<and>
          (\<exists>evs. events (snd (await m f w)) = events w @ evs \<and>
             (\<forall>ev\<in>set evs. by_attempt ev = n \<and> call ev \<noteq> Launch \<and> clock w \<le> at ev
                \<and> at ev \<le> clock (snd (await m f w))))"
  proof (cases r)
    case (Inl e)
    then have "snd (await m f w) = snd (m w)" using mw by (simp add: await_def)
    then show ?thesis using m unfolding traced_def by simp
  next
    case (Inr x)
    then have "snd (await m f w) = snd (f x w')" using mw by (simp add: await_def)
    moreover have "snd (m w) = w'" using mw by simp
    ultimately show ?thesis using traced_seq[OF m _ f, of w w' x] by simp
  qed
qed

lemma traced_try_catch:
  assumes m: "traced n m" and h: "\<And>x. traced n (h x)"
  shows "traced n (try_catch m h)"
  unfolding traced_def
proof
  fix w
  obtain r w' where mw: "m w = (r, w')" by (cases "m w")
  show "clock w \<le> clock (snd (try_catch m h w)) \<and>
          (\<exists>evs. events (snd (try_catch m h w)) = events w @ evs \<and>
             (\<forall>ev\<in>set evs. by_attempt ev = n \<and> call ev \<noteq> Launch \<and> clock w \<le> at ev
                \<and> at ev \<le> clock (snd (try_catch m h w))))"
  proof (cases r)
    case (Inr x)
    then have "snd (try_catch m h w) = snd (m w)" using mw by (simp add: try_catch_def)
    then show ?thesis using m unfolding traced_def by simp
  next
    case (Inl e)
    then have "snd (try_catch m h w) = snd (h e w')" using mw by (simp add: try_catch_def)
    moreover have "snd (m w) = w'" using mw by simp
    ultimately show ?thesis using traced_seq[OF m _ h, of w w' e] by simp
  qed
qed

lemma launch_then_traced:
  assumes rest: "traced n rest"
  shows "\<exists>evs. events (snd (await (console_write l) (\<lambda>_. await (browser_launch n e) (\<lambda>_. rest)) w))
           = events w @ \<lparr>at = clock w, by_attempt = n, call = Launch\<rparr> # evs
       \<and> (\<forall>ev\<in>set evs. by_attempt ev = n \<and> call ev \<noteq> Launch \<and> clock w \<le> at ev
             \<and> at ev \<le> clock (snd (await (console_write l) (\<lambda>_. await (browser_launch n e) (\<lambda>_. rest)) w)))
       \<and> clock w \<le> clock (snd (await (console_write l) (\<lambda>_. await (browser_launch n e) (\<lambda>_. rest)) w))"
proof (cases "snd (launch e)")
  case (Inl err)
  then show ?thesis
    by (simp add: await_def console_write_def browser_launch_def engine_call_def)
next
  case (Inr u)
  define w1 where "w1 = w\<lparr>console := console w @ [l], clock := clock w + fst (launch e),
      events := events w @ [\<lparr>at = clock w, by_attempt = n, call = Launch\<rparr>],
      open_browsers := n # open_browsers w\<rparr>"
  have eq: "await (console_write l) (\<lambda>_. await (browser_launch n e) (\<lambda>_. rest)) w = rest w1"
    using Inr
    by (simp add: await_def console_write_def browser_launch_def engine_call_def w1_def)
  from rest obtain evs where
    "clock w1 \<le> clock (snd (rest w1))"
    "events (snd (rest w1)) = events w1 @ evs"
    "\<forall>ev\<in>set evs. by_attempt ev = n \<and> call ev \<noteq> Launch \<and> clock w1 \<le> at ev
        \<and> at ev \<le> clock (snd (rest w1))"
    unfolding traced_def by blast
  then show ?thesis unfolding eq by (auto simp: w1_def)
qed

lemma attemptScrape_trace:
  "\<exists>evs. events (snd (attemptScrape url ua e n w))
           = events w @ \<lparr>at = clock w, by_attempt = n, call = Launch\<rparr> # evs
       \<and> (\<forall>ev\<in>set evs. by_attempt ev = n \<and> call ev \<noteq> Launch \<and> clock w \<le> at ev
             \<and> at ev \<le> clock (snd (attemptScrape url ua e n w)))
       \<and> clock w \<le> clock (snd (attemptScrape url ua e n w))"
  unfolding attemptScrape_def
  by (rule launch_then_traced)
     (intro traced_await traced_try_catch traced_engine_call traced_browser_close
        traced_console_write traced_resolve traced_reject, simp_all)

section \<open>The two route files differ in the console only\<close>

lemma quiet_eq_iff:
  "quiet w = quiet w' \<longleftrightarrow>
     clock w = clock w' \<and> events w = events w' \<and> open_browsers w = open_browsers w'"
  by (cases w, cases w') (simp add: quiet_def)

lemma sim_resolve: "sim (resolve x) (resolve x)"
  by (simp add: sim_def resolve_def)

lemma sim_reject: "sim (reject x) (reject x)"
  by (simp add: sim_def reject_def)

lemma sim_engine_call: "sim (engine_call n c r) (engine_call n c r)"
  by (simp add: sim_def engine_call_def quiet_eq_iff)

lemma sim_browser_launch: "sim (browser_launch n e) (browser_launch n e)"
  by (simp add: sim_def browser_launch_def engine_call_def await_def quiet_eq_iff split: sum.splits)

lemma sim_browser_close: "sim (browser_close n e) (browser_close n e)"
  by (simp add: sim_def browser_close_def closes_so_far_def engine_call_def await_def quiet_eq_iff
      split: sum.splits)

lemma sim_await:
  assumes "sim m m'" and "\<And>x. sim (f x) (f' x)"
  shows "sim (await m f) (await m' f')"
  unfolding sim_def
proof (intro allI impI)
  fix w w' assume q: "quiet w = quiet w'"
  obtain r v where mw: "m w = (r, v)" by (cases "m w")
  obtain r' v' where mw': "m' w' = (r', v')" by (cases "m' w'")
  from assms(1) q mw mw' have rv: "r = r'" "quiet v = quiet v'" unfolding sim_def by fastforce+
  show "fst (await m f w) = fst (await m' f' w') \<and>
        quiet (snd (await m f w)) = quiet (snd (await m' f' w'))"
  proof (cases r)
    case (Inl e)
    then show ?thesis using mw mw' rv by (simp add: await_def)
  next
    case (Inr x)
    then show ?thesis using mw mw' rv assms(2)[of x] unfolding sim_def by (simp add: await_def)
  qed
qed

lemma sim_try_catch:
  assumes "sim m m'" and "\<And>x. sim (h x) (h' x)"
  shows "sim (try_catch m h) (try_catch m' h')"
  unfolding sim_def
proof (intro allI impI)
  fix w w' assume q: "quiet w = quiet w'"
  obtain r v where mw: "m w = (r, v)" by (cases "m w")
  obtain r' v' where mw': "m' w' = (r', v')" by (cases "m' w'")
  from assms(1) q mw mw' have rv: "r = r'" "quiet v = quiet v'" unfolding sim_def by fastforce+
  show "fst (try_catch m h w) = fst (try_catch m' h' w') \<and>
        quiet (snd (try_catch m h w)) = quiet (snd (try_catch m' h' w'))"
  proof (cases r)
    case (Inr x)
    then show ?thesis using mw mw' rv by (simp add: try_catch_def)
  next
    case (Inl e)
    then show ?thesis using mw mw' rv assms(2)[of e] unfolding sim_def by (simp add: try_catch_def)
  qed
qed

lemma sim_console_left:
  assumes "sim m m'"
  shows "sim (await (console_write l) (\<lambda>_. m)) m'"
  using assms unfolding sim_def
  by (simp add: await_def console_write_def quiet_eq_iff)

lemma attemptScrape_sim:
  "sim (attemptScrape url ua e n) (attemptScrape_part_001 url ua e n)"
  unfolding attemptScrape_def attemptScrape_part_001_def
  apply (rule sim_console_left)
  apply (rule sim_await[OF sim_browser_launch])
  apply (rule sim_await[OF sim_engine_call])
  apply (rule sim_await[OF sim_engine_call])
  apply (rule sim_try_catch)
   apply (rule sim_await[OF sim_engine_call])
   apply (rule sim_await[OF sim_engine_call])
   apply (rule sim_await[OF sim_try_catch[OF sim_engine_call sim_resolve]])
   apply (rule sim_await[OF sim_try_catch[OF sim_await[OF sim_engine_call sim_resolve] sim_resolve]])
   apply (rule sim_await[OF sim_browser_close])
   apply (rule sim_console_left)
   apply (rule sim_resolve)
  apply (rule sim_console_left)
  apply (rule sim_await[OF sim_browser_close])
  apply (rule sim_reject)
  done

section \<open>The result of an attempt\<close>

lemma yields_any: "yields (\<lambda>_. True) m"
  by (simp add: yields_def)

lemma yields_resolve: "P x \<Longrightarrow> yields P (resolve x)"
  by (simp add: yields_def resolve_def)

lemma yields_reject: "yields P (reject e)"
  by (simp add: yields_def reject_def)

lemma yields_engine_call: "yields (\<lambda>x. snd r = Inr x) (engine_call n c r)"
  by (simp add: yields_def engine_call_def)

lemma yields_or_null:
  "yields (\<lambda>x. x = (case snd r of Inl e \<Rightarrow> d | Inr v \<Rightarrow> g v))
     (try_catch (await (engine_call n c r) (\<lambda>v. resolve (g v))) (\<lambda>_. resolve d))"
  by (simp add: yields_def try_catch_def await_def engine_call_def resolve_def split: sum.splits)

lemma yields_or_none:
  "yields (\<lambda>x. x = (case snd r of Inl e \<Rightarrow> d | Inr v \<Rightarrow> v))
     (try_catch (engine_call n c r) (\<lambda>_. resolve d))"
  by (simp add: yields_def try_catch_def engine_call_def resolve_def split: sum.splits)

lemma yields_await:
  assumes "yields Q m" and "\<And>x. Q x \<Longrightarrow> yields P (f x)"
  shows "yields P (await m f)"
  unfolding yields_def
proof (intro allI impI)
  fix w y assume a: "fst (await m f w) = Inr y"
  obtain r w' where mw: "m w = (r, w')" by (cases "m w")
  show "P y"
  proof (cases r)
    case (Inl e)
    then show ?thesis using a mw by (simp add: await_def)
  next
    case (Inr x)
    then have "Q x" using assms(1) mw unfolding yields_def by (metis fst_conv)
    moreover have "fst (f x w') = Inr y" using a mw Inr by (simp add: await_def)
    ultimately show ?thesis using assms(2)[of x] unfolding yields_def by blast
  qed
qed

lemma yields_try_catch:
  assumes "yields P m" and "\<And>e. yields P (h e)"
  shows "yields P (try_catch m h)"
  unfolding yields_def
proof (intro allI impI)
  fix w y assume a: "fst (try_catch m h w) = Inr y"
  obtain r w' where mw: "m w = (r, w')" by (cases "m w")
  show "P y"
  proof (cases r)
    case (Inl e)
    then have "fst (h e w') = Inr y" using a mw by (simp add: try_catch_def)
    then show ?thesis using assms(2)[of e] unfolding yields_def by blast
  next
    case (Inr x)
    then have "fst (m w) = Inr y" using a mw by (simp add: try_catch_def)
    then show ?thesis using assms(1) unfolding yields_def by blast
  qed
qed

lemma attemptScrape_yields:
  "yields (\<lambda>r. status r = 200
       \<and> (\<exists>t. snd (page_title e) = Inr t \<and> title r = (if t = [] then None else Some t))
       \<and> metaDescription r = (case snd (evalMeta e) of Inl x \<Rightarrow> None | Inr v \<Rightarrow> v)
       \<and> h1 r = (case snd (evalH1 e) of Inl x \<Rightarrow> Null
                   | Inr v \<Rightarrow> (case v of None \<Rightarrow> Undefined | Some s \<Rightarrow> Text s)))
     (attemptScrape url ua e n)"
  unfolding attemptScrape_def
  apply (rule yields_await[OF yields_any])
  apply (rule yields_await[OF yields_any])
  apply (rule yields_await[OF yields_any])
  apply (rule yields_await[OF yields_any])
  apply (rule yields_try_catch)
   apply (rule yields_await[OF yields_any])
   apply (rule yields_await[OF yields_engine_call])
   apply (rule yields_await[OF yields_or_none])
   apply (rule yields_await[OF yields_or_null])
   apply (rule yields_await[OF yields_any])
   apply (rule yields_await[OF yields_any])
   apply (rule yields_resolve)
   apply simp
  apply (rule yields_await[OF yields_any])
  apply (rule yields_await[OF yields_any])
  apply (rule yields_reject)
  done

lemma attemptScrape_succeeds:
  assumes "snd (launch e) = Inr ()" "snd (newContext e) = Inr ()" "snd (newPage e) = Inr ()"
    "snd (goto e) = Inr ()" "snd (page_title e) = Inr t" "\<forall>k. snd (close e k) = Inr ()"
  shows "\<exists>r. fst (attemptScrape url ua e n w) = Inr r"
proof (cases "snd (evalMeta e)")
  case mI: (Inl a)
  show ?thesis
  proof (cases "snd (evalH1 e)")
    case (Inl b)
    then show ?thesis using assms mI
      by (simp add: attemptScrape_def await_def try_catch_def resolve_def reject_def console_write_def
  engine_call_def browser_launch_def browser_close_def)
  next
    case (Inr b)
    then show ?thesis using assms mI
      by (simp add: attemptScrape_def await_def try_catch_def resolve_def reject_def console_write_def
  engine_call_def browser_launch_def browser_close_def)
  qed
next
  case mI: (Inr a)
  show ?thesis
  proof (cases "snd (evalH1 e)")
    case (Inl b)
    then show ?thesis using assms mI
      by (simp add: attemptScrape_def await_def try_catch_def resolve_def reject_def console_write_def
  engine_call_def browser_launch_def browser_close_def)
  next
    case (Inr b)
    then show ?thesis using assms mI
      by (simp add: attemptScrape_def await_def try_catch_def resolve_def reject_def console_write_def
  engine_call_def browser_launch_def browser_close_def)
  qed
qed

lemma yieldsD: "yields P m \<Longrightarrow> fst (m w) = Inr x \<Longrightarrow> P x"
  by (simp add: yields_def)

section \<open>Where the browser is released\<close>

text \<open>
  Once the context and the page are open, every path through the \<^verbatim>\<open>try\<close> block and
  its \<^verbatim>\<open>catch\<close> calls \<^verbatim>\<open>browser.close()\<close>.
\<close>

lemma browser_released_once_page_is_open:
  assumes "snd (newContext e) = Inr ()" "snd (newPage e) = Inr ()"
    and "\<forall>k. snd (close e k) = Inr ()" and "n \<notin> set (open_browsers w)"
  shows "n \<notin> set (open_browsers (snd (attemptScrape url ua e n w)))"
  using assms
  by (simp add: attemptScrape_def await_def try_catch_def resolve_def reject_def
      console_write_def engine_call_def browser_launch_def browser_close_def
      split: sum.splits)

section \<open>Attempts in a run of the retry loop\<close>

lemma attemptScrape_launches_once:
  "attempts_started (new_events w (snd (attemptScrape url ua e n w))) = 1"
proof -
  obtain evs where ev: "events (snd (attemptScrape url ua e n w))
        = events w @ \<lparr>at = clock w, by_attempt = n, call = Launch\<rparr> # evs"
    and no: "\<forall>ev\<in>set evs. by_attempt ev = n \<and> call ev \<noteq> Launch \<and> clock w \<le> at ev
             \<and> at ev \<le> clock (snd (attemptScrape url ua e n w))"
    using attemptScrape_trace[of url ua e n w] by blast
  from no have "filter (\<lambda>ev. call ev = Launch) evs = []" by (simp add: filter_empty_conv)
  then show ?thesis by (simp add: attempts_started_def new_events_def ev)
qed

lemma two_attempts_trace:
  fixes w url ua e n e' n'
  defines "w1 \<equiv> snd (attemptScrape url ua e n w)"
  defines "w2 \<equiv> snd (attemptScrape url ua e' n' w1)"
  shows "\<exists>evs2. new_events w w2
            = new_events w w1 @ \<lparr>at = clock w1, by_attempt = n', call = Launch\<rparr> # evs2
          \<and> (\<forall>ev\<in>set (new_events w w1). by_attempt ev = n \<and> at ev \<le> clock w1)
          \<and> (\<forall>ev\<in>set evs2. by_attempt ev = n' \<and> call ev \<noteq> Launch \<and> clock w1 \<le> at ev)
          \<and> attempts_started (new_events w w1) = 1"
proof -
  obtain evs1 where 1: "events w1 = events w @ \<lparr>at = clock w, by_attempt = n, call = Launch\<rparr> # evs1"
    "\<forall>ev\<in>set evs1. by_attempt ev = n \<and> call ev \<noteq> Launch \<and> clock w \<le> at ev \<and> at ev \<le> clock w1"
    "clock w \<le> clock w1"
    using attemptScrape_trace[of url ua e n w] unfolding w1_def by blast
  obtain evs2 where 2: "events w2 = events w1 @ \<lparr>at = clock w1, by_attempt = n', call = Launch\<rparr> # evs2"
    "\<forall>ev\<in>set evs2. by_attempt ev = n' \<and> call ev \<noteq> Launch \<and> clock w1 \<le> at ev \<and> at ev \<le> clock w2"
    using attemptScrape_trace[of url ua e' n' w1] unfolding w2_def by blast
  have a: "new_events w w1 = \<lparr>at = clock w, by_attempt = n, call = Launch\<rparr> # evs1"
    by (simp add: new_events_def 1)
  have b: "new_events w w2 = new_events w w1 @ \<lparr>at = clock w1, by_attempt = n', call = Launch\<rparr> # evs2"
    by (simp add: new_events_def 1 2)
  have c: "\<forall>ev\<in>set (new_events w w1). by_attempt ev = n \<and> at ev \<le> clock w1"
    using 1 by (simp add: a)
  have d: "attempts_started (new_events w w1) = 1"
    unfolding w1_def by (rule attemptScrape_launches_once)
  show ?thesis using b c d 2(2) by blast
qed

lemma retry_loop_then_second:
  assumes "fst (attemptScrape url ua (eng 1) 1 w) = Inl e1"
  shows "overallPromise url ua eng w
           = attemptScrape url ua (eng 2) 2 (snd (attemptScrape url ua (eng 1) 1 w))"
proof -
  obtain w1 where a1: "attemptScrape url ua (eng 1) 1 w = (Inl e1, w1)"
    using assms by (cases "attemptScrape url ua (eng 1) 1 w") simp
  obtain r2 w2 where a2: "attemptScrape url ua (eng 2) 2 w1 = (r2, w2)"
    by (cases "attemptScrape url ua (eng 2) 2 w1")
  show ?thesis using a1 a2 by (cases r2) (simp_all add: overallPromise_unroll)
qed

lemma overallPromise_status:
  assumes "fst (overallPromise url ua eng w) = Inr r"
  shows "status r = 200"
proof -
  obtain r1 w1 where a1: "attemptScrape url ua (eng 1) 1 w = (r1, w1)"
    by (cases "attemptScrape url ua (eng 1) 1 w")
  obtain r2 w2 where a2: "attemptScrape url ua (eng 2) 2 w1 = (r2, w2)"
    by (cases "attemptScrape url ua (eng 2) 2 w1")
  have "fst (attemptScrape url ua (eng 1) 1 w) = Inr r \<or> fst (attemptScrape url ua (eng 2) 2 w1) = Inr r"
    using assms a1 a2 by (cases r1; cases r2) (simp_all add: overallPromise_unroll)
  then show ?thesis using yieldsD[OF attemptScrape_yields] by blast
qed

section \<open>The retry loop of the second route file\<close>

lemma retry_loop_part_001_3:
  "retry_loop_part_001 url ua eng 3 le w =
     (Inl (case le of Some err \<Rightarrow> err | None \<Rightarrow> Error ''Unknown error''), w)"
  by (simp add: retry_loop_part_001.simps[of url ua eng 3] MAX_ATTEMPTS_def)

lemma retry_loop_part_001_2:
  "retry_loop_part_001 url ua eng 2 le w =
     (case attemptScrape_part_001 url ua (eng 2) 2 w of
        (Inr r, w2) \<Rightarrow> (Inr r, w2)
      | (Inl e2, w2) \<Rightarrow> (Inl e2, snd (console_write (Warn_attempt_failed 2 (message e2)) w2)))"
  by (simp add: retry_loop_part_001.simps[of url ua eng 2] retry_loop_part_001_3 MAX_ATTEMPTS_def
      split: prod.splits sum.splits)

lemma overallPromise_part_001_unroll:
  "overallPromise_part_001 url ua eng w =
     (case attemptScrape_part_001 url ua (eng 1) 1 w of
        (Inr r, w1) \<Rightarrow> (Inr r, w1)
      | (Inl e1, w1) \<Rightarrow>
          (case attemptScrape_part_001 url ua (eng 2) 2
                  (snd (console_write (Warn_attempt_failed 1 (message e1)) w1)) of
             (Inr r, w2) \<Rightarrow> (Inr r, w2)
           | (Inl e2, w2) \<Rightarrow>
               (Inl e2, snd (console_write (Warn_attempt_failed 2 (message e2)) w2))))"
proof -
  have "(1::nat) + 1 = 2" by simp
  then show ?thesis
    unfolding overallPromise_part_001_def
    by (subst retry_loop_part_001.simps)
       (simp only: retry_loop_part_001_2 MAX_ATTEMPTS_def, simp)
qed

lemma overallPromise_try_catch:
  "overallPromise url ua eng =
     try_catch (attemptScrape url ua (eng 1) 1)
       (\<lambda>e1. try_catch (attemptScrape url ua (eng 2) 2) (\<lambda>e2. reject e2))"
  by (rule ext)
     (simp add: overallPromise_unroll try_catch_def reject_def split: prod.splits sum.splits)

lemma overallPromise_part_001_try_catch:
  "overallPromise_part_001 url ua eng =
     try_catch (attemptScrape_part_001 url ua (eng 1) 1)
       (\<lambda>e1. await (console_write (Warn_attempt_failed 1 (message e1)))
          (\<lambda>_. try_catch (attemptScrape_part_001 url ua (eng 2) 2)
             (\<lambda>e2. await (console_write (Warn_attempt_failed 2 (message e2)))
                (\<lambda>_. reject e2))))"
  by (rule ext)
     (simp add: overallPromise_part_001_unroll try_catch_def await_def reject_def console_write_def
        split: prod.splits sum.splits)

lemma sim_console_right:
  assumes "sim m m'"
  shows "sim m (await (console_write l) (\<lambda>_. m'))"
  unfolding sim_def
proof (intro allI impI)
  fix w w' assume "quiet w = quiet w'"
  then have "quiet w = quiet (w'\<lparr>console := console w' @ [l]\<rparr>)"
    by (simp add: quiet_def)
  with assms show "fst (m w) = fst (await (console_write l) (\<lambda>_. m') w') \<and>
       quiet (snd (m w)) = quiet (snd (await (console_write l) (\<lambda>_. m') w'))"
    unfolding sim_def by (simp add: await_def console_write_def)
qed

lemma overallPromise_sim:
  "sim (overallPromise url ua eng) (overallPromise_part_001 url ua eng)"
  unfolding overallPromise_try_catch overallPromise_part_001_try_catch
  apply (rule sim_try_catch[OF attemptScrape_sim])
  apply (rule sim_console_right)
  apply (rule sim_try_catch[OF attemptScrape_sim])
  apply (rule sim_console_right)
  apply (rule sim_reject)
  done

section \<open>Evaluating the example requests\<close>

lemmas eval_defs = attemptScrape_def await_def try_catch_def resolve_def reject_def
  console_write_def engine_call_def browser_launch_def browser_close_def closes_so_far_def
  or_undefined_def NAVIGATION_TIMEOUT_MS_def
  fresh_def example_url_def example_page_def refused_def navigation_timeout_def
  refused_then_timeout_def

lemmas handler_eval_defs = handler_def overallPromise_unroll promise_race_def
  import_playwright_def send_def GLOBAL_TIMEOUT_MS_def http_prefix_def Let_def

section \<open>What the handler answers when the work fails\<close>

lemma deadline_answered_504:
  assumes "isValidHttpUrl url"
    and "GLOBAL_TIMEOUT_MS \<le> clock (snd (overallPromise url ua eng (import_playwright w))) - clock w"
  shows "fst (handler isValidHttpUrl eng url ua w) = send 504 (Error_body ''Timeout'' None)"
proof -
  have "clock (import_playwright w) = clock w"
    by (simp add: import_playwright_def engine_call_def)
  then show ?thesis using assms
    by (simp add: handler_def promise_race_def Let_def)
qed

lemma other_failure_answered_500:
  assumes "isValidHttpUrl url"
    and "clock (snd (overallPromise url ua eng (import_playwright w))) - clock w < GLOBAL_TIMEOUT_MS"
    and "fst (overallPromise url ua eng (import_playwright w)) = Inl err"
    and "message err \<noteq> []" and "\<not> str_includes (message err) ''Timeout''"
  shows "fst (handler isValidHttpUrl eng url ua w)
           = send 500 (Error_body ''Scraping failed'' (Some (message err)))"
proof -
  have "clock (import_playwright w) = clock w"
    by (simp add: import_playwright_def engine_call_def)
  then show ?thesis using assms
    by (simp add: handler_def promise_race_def Let_def)
qed

section \<open>What a 200 response carries\<close>

lemma overallPromise_result_from:
  assumes "fst (overallPromise url ua eng w) = Inr r"
  shows "(\<exists>v. fst (attemptScrape url ua (eng 1) 1 v) = Inr r) \<or>
         (\<exists>v. fst (attemptScrape url ua (eng 2) 2 v) = Inr r)"
proof -
  obtain r1 w1 where a1: "attemptScrape url ua (eng 1) 1 w = (r1, w1)"
    by (cases "attemptScrape url ua (eng 1) 1 w")
  obtain r2 w2 where a2: "attemptScrape url ua (eng 2) 2 w1 = (r2, w2)"
    by (cases "attemptScrape url ua (eng 2) 2 w1")
  have "fst (attemptScrape url ua (eng 1) 1 w) = Inr r \<or> fst (attemptScrape url ua (eng 2) 2 w1) = Inr r"
    using assms a1 a2 by (cases r1; cases r2) (simp_all add: overallPromise_unroll)
  then show ?thesis by blast
qed

lemma handler_200_from_work:
  assumes "fst (handler isValidHttpUrl eng url ua w) = send 200 (Result_body r)"
  shows "isValidHttpUrl url \<and> fst (overallPromise url ua eng (import_playwright w)) = Inr r"
proof (cases "isValidHttpUrl url")
  case False
  then show ?thesis using assms by (simp add: handler_def send_def)
next
  case True
  show ?thesis
  proof (cases "promise_race (clock (import_playwright w))
                  (overallPromise url ua eng (import_playwright w))")
    case (Inr r')
    then have "fst (overallPromise url ua eng (import_playwright w)) = Inr r'"
      by (simp add: promise_race_def split: if_splits)
    moreover have "r' = r" using assms True Inr by (simp add: handler_def Let_def send_def)
    ultimately show ?thesis using True by simp
  next
    case (Inl err)
    then show ?thesis using assms True
      by (simp add: handler_def Let_def send_def split: if_splits)
  qed
qed

lemma work_answered_200:
  assumes "isValidHttpUrl url"
    and "fst (overallPromise url ua eng (import_playwright w)) = Inr r"
    and "clock (snd (overallPromise url ua eng (import_playwright w))) - clock w < GLOBAL_TIMEOUT_MS"
  shows "fst (handler isValidHttpUrl eng url ua w) = send 200 (Result_body r)"
proof -
  have "clock (import_playwright w) = clock w"
    by (simp add: import_playwright_def engine_call_def)
  then show ?thesis using assms by (simp add: handler_def promise_race_def Let_def)
qed

section \<open>The claims\<close>

text \<open>
  C1. The claim: a failure other than the global deadline is answered 500, never 504. The
  handler tells the deadline from other failures by \<^verbatim>\<open>message.includes('Timeout')\<close>.
  Here the first attempt is refused after 100 ms and the second runs into the navigation
  timeout: the work rejects 15880 ms after it started, before the 20000 ms deadline, with
  the message "page.goto: Timeout 15000ms exceeded.", and the handler answers 504.
\<close>

theorem navigation_timeout_answered_504:
  "fst (overallPromise example_url None refused_then_timeout (import_playwright fresh))
     = Inl (Error ''page.goto: Timeout 15000ms exceeded.'') \<and>
   clock (snd (overallPromise example_url None refused_then_timeout (import_playwright fresh)))
     - clock (import_playwright fresh) = 15880 \<and>
   15880 < GLOBAL_TIMEOUT_MS \<and>
   fst (handler http_prefix refused_then_timeout example_url None fresh)
     = send 504 (Error_body ''Timeout'' None)"
  by (simp add: handler_eval_defs eval_defs)

text \<open>
  C2. The claim: the browser is released on every exit path of an attempt, also when
  acquiring the context or the page fails. \<^verbatim>\<open>browser.newContext\<close> and
  \<^verbatim>\<open>context.newPage\<close> are awaited before the \<^verbatim>\<open>try\<close> block: when the context cannot
  be created the attempt propagates the error, \<^verbatim>\<open>browser.close()\<close> is never called and
  the browser of the attempt stays open.
\<close>

theorem context_failure_leaks_browser:
  "fst (attemptScrape example_url None context_fails 1 fresh)
     = Inl (Error ''browser.newContext: Target closed'') \<and>
   open_browsers (snd (attemptScrape example_url None context_fails 1 fresh)) = [1] \<and>
   map call (events (snd (attemptScrape example_url None context_fails 1 fresh)))
     = [Launch, NewContext None]"
  by (simp add: eval_defs context_fails_def)

text \<open>
  C3. The claim: after a completed navigation a failing title query does not fail the
  attempt. \<^verbatim>\<open>page.title()\<close> has no \<^verbatim>\<open>.catch\<close>, unlike the two \<^verbatim>\<open>$eval\<close> queries next
  to it: when it rejects after a successful navigation, the attempt rejects with that
  error, and when it does so on both attempts the request is answered 500.
\<close>

theorem title_failure_fails_attempt:
  "snd (goto title_fails) = Inr () \<and>
   fst (attemptScrape example_url None title_fails 1 fresh)
     = Inl (Error ''page.title: Execution context was destroyed'') \<and>
   fst (handler http_prefix (\<lambda>n. title_fails) example_url None fresh)
     = send 500 (Error_body ''Scraping failed''
         (Some ''page.title: Execution context was destroyed''))"
  by (simp add: handler_eval_defs eval_defs title_fails_def)

text \<open>
  C4. The retry loop starts at most two attempts. When the first attempt returns a result,
  the loop resolves with it in the world that attempt left, so no second attempt is
  started. When the first attempt fails, the loop settles exactly as the second attempt
  does, run from the world the first left: when both fail it rejects with the error of the
  second attempt, and the error of the first is dropped.
\<close>

theorem retry_controller:
  "attempts_started (new_events w (snd (overallPromise url ua eng w))) \<le> 2 \<and>
   (\<forall>r. fst (attemptScrape url ua (eng 1) 1 w) = Inr r \<longrightarrow>
        overallPromise url ua eng w = attemptScrape url ua (eng 1) 1 w \<and>
        attempts_started (new_events w (snd (overallPromise url ua eng w))) = 1) \<and>
   (\<forall>e1. fst (attemptScrape url ua (eng 1) 1 w) = Inl e1 \<longrightarrow>
        overallPromise url ua eng w
          = attemptScrape url ua (eng 2) 2 (snd (attemptScrape url ua (eng 1) 1 w))) \<and>
   (\<forall>e1 e2. fst (attemptScrape url ua (eng 1) 1 w) = Inl e1 \<longrightarrow>
        fst (attemptScrape url ua (eng 2) 2 (snd (attemptScrape url ua (eng 1) 1 w))) = Inl e2 \<longrightarrow>
        fst (overallPromise url ua eng w) = Inl e2)"
proof -
  obtain r1 w1 where a1: "attemptScrape url ua (eng 1) 1 w = (r1, w1)"
    by (cases "attemptScrape url ua (eng 1) 1 w")
  obtain r2 w2 where a2: "attemptScrape url ua (eng 2) 2 w1 = (r2, w2)"
    by (cases "attemptScrape url ua (eng 2) 2 w1")
  have once: "attempts_started (new_events w w1) = 1"
    using attemptScrape_launches_once[of w url ua "eng 1" 1] a1 by simp
  show ?thesis
  proof (cases r1)
    case (Inr r)
    then have "overallPromise url ua eng w = (Inr r, w1)"
      using a1 by (simp add: overallPromise_unroll)
    then show ?thesis using a1 Inr once by simp
  next
    case (Inl e1)
    then have ov: "overallPromise url ua eng w = (r2, w2)"
      using a1 a2 by (cases r2) (simp_all add: overallPromise_unroll)
    obtain evs2 where t: "new_events w w2
            = new_events w w1 @ \<lparr>at = clock w1, by_attempt = 2, call = Launch\<rparr> # evs2"
        "\<forall>ev\<in>set evs2. by_attempt ev = 2 \<and> call ev \<noteq> Launch \<and> clock w1 \<le> at ev"
      using two_attempts_trace[where w = w and url = url and ua = ua and e = "eng 1" and n = 1
          and e' = "eng 2" and n' = 2] a1 a2 by auto
    from t(2) have "filter (\<lambda>ev. call ev = Launch) evs2 = []" by (simp add: filter_empty_conv)
    then have "attempts_started (new_events w w2) = 2"
      using once by (simp add: t(1) attempts_started_def)
    then show ?thesis using a1 a2 Inl ov by simp
  qed
qed

theorem retry_controller_witness:
  "overallPromise example_url None (\<lambda>n. example_page) fresh
     = attemptScrape example_url None example_page 1 fresh \<and>
   fst (overallPromise example_url None refused_then_timeout fresh)
     = Inl (Error ''page.goto: Timeout 15000ms exceeded.'')"
proof -
  have a: "fst (attemptScrape example_url None example_page 1 fresh)
      = Inr \<lparr>title = Some ''Example Domain'', metaDescription = None, h1 = Null, status = 200\<rparr>"
    by (simp add: eval_defs)
  have b: "fst (attemptScrape example_url None (refused_then_timeout 1) 1 fresh)
      = Inl (Error ''page.goto: net::ERR_CONNECTION_REFUSED'')"
    by (simp add: eval_defs)
  have c: "fst (attemptScrape example_url None (refused_then_timeout 2) 2
              (snd (attemptScrape example_url None (refused_then_timeout 1) 1 fresh)))
      = Inl (Error ''page.goto: Timeout 15000ms exceeded.'')"
    by (simp add: eval_defs)
  show ?thesis
    using retry_controller[of fresh example_url None "\<lambda>n. example_page"]
      retry_controller[of fresh example_url None refused_then_timeout] a b c
    by blast
qed

text \<open>
  C5. For every validator and every \<^verbatim>\<open>url\<close> parameter it rejects (a missing one
  included), the handler answers 400 with \<^verbatim>\<open>{ error: 'Invalid URL' }\<close> and leaves the
  world as it was: the engine is not imported and no call reaches it.
\<close>

theorem invalid_url_400:
  "\<not> isValidHttpUrl url \<Longrightarrow>
     handler isValidHttpUrl eng url ua w = (send 400 (Error_body ''Invalid URL'' None), w) \<and>
     new_events w (snd (handler isValidHttpUrl eng url ua w)) = []"
  by (simp add: handler_def new_events_def)

theorem invalid_url_400_witness:
  "fst (handler http_prefix (\<lambda>n. example_page) None None fresh)
     = send 400 (Error_body ''Invalid URL'' None) \<and>
   snd (handler http_prefix (\<lambda>n. example_page) (Some ''ftp://example.com'') None fresh) = fresh"
proof -
  have a: "\<not> http_prefix None" by (simp add: http_prefix_def)
  have b: "\<not> http_prefix (Some ''ftp://example.com'')" by (simp add: http_prefix_def)
  show ?thesis
    using invalid_url_400[of http_prefix None "\<lambda>n. example_page" None fresh]
      invalid_url_400[of http_prefix "Some ''ftp://example.com''" "\<lambda>n. example_page" None fresh]
      a b
    by simp
qed

text \<open>
  C6. When the browser is launched, the context and the page are opened, the navigation
  completes, the title query resolves and the browser closes, the attempt returns a result
  whatever the two \<^verbatim>\<open>$eval\<close> queries do: a query that rejects (no matching element, or
  any other error) leaves \<^verbatim>\<open>null\<close> in its field. Whenever the handler answers 200,
  on the first attempt or after the retry, a field whose query rejects at both attempts is
  \<^verbatim>\<open>null\<close> in the body. When such an attempt is the first of a request with a valid
  url, or the second after a failed first, and the work settles before the deadline, the
  handler answers 200 with such a result.
\<close>

theorem missing_fields_are_null:
  assumes "snd (launch e) = Inr ()" "snd (newContext e) = Inr ()" "snd (newPage e) = Inr ()"
    "snd (goto e) = Inr ()" "snd (page_title e) = Inr t" "\<forall>k. snd (close e k) = Inr ()"
  shows "(\<exists>r. fst (attemptScrape url ua e n w) = Inr r \<and>
           (\<forall>x. snd (evalMeta e) = Inl x \<longrightarrow> metaDescription r = None) \<and>
           (\<forall>x. snd (evalH1 e) = Inl x \<longrightarrow> h1 r = Null)) \<and>
         (\<forall>r'. fst (handler isValidHttpUrl eng url ua w) = send 200 (Result_body r') \<longrightarrow>
           ((\<exists>x. snd (evalMeta (eng 1)) = Inl x) \<and> (\<exists>x. snd (evalMeta (eng 2)) = Inl x)
              \<longrightarrow> metaDescription r' = None) \<and>
           ((\<exists>x. snd (evalH1 (eng 1)) = Inl x) \<and> (\<exists>x. snd (evalH1 (eng 2)) = Inl x)
              \<longrightarrow> h1 r' = Null)) \<and>
         (isValidHttpUrl url \<longrightarrow>
          (eng 1 = e \<or>
           (eng 2 = e \<and>
            (\<exists>e1. fst (attemptScrape url ua (eng 1) 1 (import_playwright w)) = Inl e1))) \<longrightarrow>
          clock (snd (overallPromise url ua eng (import_playwright w))) - clock w
            < GLOBAL_TIMEOUT_MS \<longrightarrow>
          (\<exists>r'. fst (handler isValidHttpUrl eng url ua w) = send 200 (Result_body r') \<and>
             (\<forall>x. snd (evalMeta e) = Inl x \<longrightarrow> metaDescription r' = None) \<and>
             (\<forall>x. snd (evalH1 e) = Inl x \<longrightarrow> h1 r' = Null)))"
proof -
  have fields: "\<And>e' k v r. fst (attemptScrape url ua e' k v) = Inr r \<Longrightarrow>
           (\<forall>x. snd (evalMeta e') = Inl x \<longrightarrow> metaDescription r = None) \<and>
           (\<forall>x. snd (evalH1 e') = Inl x \<longrightarrow> h1 r = Null)"
    using yieldsD[OF attemptScrape_yields] by fastforce
  have A: "\<exists>r. fst (attemptScrape url ua e n w) = Inr r \<and>
           (\<forall>x. snd (evalMeta e) = Inl x \<longrightarrow> metaDescription r = None) \<and>
           (\<forall>x. snd (evalH1 e) = Inl x \<longrightarrow> h1 r = Null)"
    using attemptScrape_succeeds[OF assms, of url ua n w] fields by blast
  have B: "((\<exists>x. snd (evalMeta (eng 1)) = Inl x) \<and> (\<exists>x. snd (evalMeta (eng 2)) = Inl x)
              \<longrightarrow> metaDescription r' = None) \<and>
           ((\<exists>x. snd (evalH1 (eng 1)) = Inl x) \<and> (\<exists>x. snd (evalH1 (eng 2)) = Inl x)
              \<longrightarrow> h1 r' = Null)"
    if h: "fst (handler isValidHttpUrl eng url ua w) = send 200 (Result_body r')" for r'
  proof -
    have "fst (overallPromise url ua eng (import_playwright w)) = Inr r'"
      using handler_200_from_work[OF h] by simp
    then have "(\<exists>v. fst (attemptScrape url ua (eng 1) 1 v) = Inr r') \<or>
         (\<exists>v. fst (attemptScrape url ua (eng 2) 2 v) = Inr r')"
      by (rule overallPromise_result_from)
    then show ?thesis using fields by blast
  qed
  have C: "\<exists>r'. fst (handler isValidHttpUrl eng url ua w) = send 200 (Result_body r') \<and>
             (\<forall>x. snd (evalMeta e) = Inl x \<longrightarrow> metaDescription r' = None) \<and>
             (\<forall>x. snd (evalH1 e) = Inl x \<longrightarrow> h1 r' = Null)"
    if v: "isValidHttpUrl url"
      and k: "eng 1 = e \<or>
           (eng 2 = e \<and>
            (\<exists>e1. fst (attemptScrape url ua (eng 1) 1 (import_playwright w)) = Inl e1))"
      and c: "clock (snd (overallPromise url ua eng (import_playwright w))) - clock w
            < GLOBAL_TIMEOUT_MS"
  proof -
    have "\<exists>r'. fst (overallPromise url ua eng (import_playwright w)) = Inr r' \<and>
             (\<forall>x. snd (evalMeta e) = Inl x \<longrightarrow> metaDescription r' = None) \<and>
             (\<forall>x. snd (evalH1 e) = Inl x \<longrightarrow> h1 r' = Null)"
      using k
    proof
      assume e1: "eng 1 = e"
      obtain r' where r': "fst (attemptScrape url ua (eng 1) 1 (import_playwright w)) = Inr r'"
        using attemptScrape_succeeds[OF assms] e1 by blast
      then obtain v' where "attemptScrape url ua (eng 1) 1 (import_playwright w) = (Inr r', v')"
        by (cases "attemptScrape url ua (eng 1) 1 (import_playwright w)") simp
      then have "fst (overallPromise url ua eng (import_playwright w)) = Inr r'"
        by (simp add: overallPromise_unroll)
      then show ?thesis using fields[OF r'] e1 by blast
    next
      assume "eng 2 = e \<and>
            (\<exists>e1. fst (attemptScrape url ua (eng 1) 1 (import_playwright w)) = Inl e1)"
      then obtain e1 where e2: "eng 2 = e"
        and f: "fst (attemptScrape url ua (eng 1) 1 (import_playwright w)) = Inl e1" by blast
      have ov: "overallPromise url ua eng (import_playwright w)
           = attemptScrape url ua (eng 2) 2
               (snd (attemptScrape url ua (eng 1) 1 (import_playwright w)))"
        using retry_loop_then_second[of url ua eng "import_playwright w" e1] f by blast
      obtain r' where r': "fst (attemptScrape url ua (eng 2) 2
               (snd (attemptScrape url ua (eng 1) 1 (import_playwright w)))) = Inr r'"
        using attemptScrape_succeeds[OF assms] e2 by blast
      then show ?thesis using fields[OF r'] e2 ov by auto
    qed
    then show ?thesis
      using work_answered_200[of isValidHttpUrl url ua eng w] v c by blast
  qed
  from A B C show ?thesis by blast
qed

theorem missing_fields_are_null_witness:
  "fst (handler http_prefix refused_then_page example_url None fresh)
     = send 200 (Result_body
         \<lparr>title = Some ''Example Domain'', metaDescription = None, h1 = Null, status = 200\<rparr>)
   \<and> (\<exists>r. fst (attemptScrape example_url None example_page 1 fresh) = Inr r \<and>
           metaDescription r = None \<and> h1 r = Null)"
proof -
  have a: "snd (launch example_page) = Inr ()" "snd (newContext example_page) = Inr ()"
    "snd (newPage example_page) = Inr ()" "snd (goto example_page) = Inr ()"
    "snd (page_title example_page) = Inr ''Example Domain''"
    "\<forall>k. snd (close example_page k) = Inr ()"
    by (simp_all add: example_page_def)
  have b: "snd (evalMeta example_page)
             = Inl (Error ''page.$eval: Failed to find element matching selector'')"
    "snd (evalH1 example_page)
             = Inl (Error ''page.$eval: Failed to find element matching selector h1'')"
    by (simp_all add: example_page_def)
  have v: "http_prefix example_url" by (simp add: http_prefix_def example_url_def)
  have k: "refused_then_page 2 = example_page"
    "fst (attemptScrape example_url None (refused_then_page 1) 1 (import_playwright fresh))
       = Inl (Error ''page.goto: net::ERR_CONNECTION_REFUSED'')"
    by (simp_all add: refused_then_page_def import_playwright_def eval_defs)
  have c: "clock (snd (overallPromise example_url None refused_then_page (import_playwright fresh)))
             - clock fresh < GLOBAL_TIMEOUT_MS"
    by (simp add: overallPromise_unroll refused_then_page_def import_playwright_def
        GLOBAL_TIMEOUT_MS_def eval_defs)
  have d: "fst (handler http_prefix refused_then_page example_url None fresh)
     = send 200 (Result_body
         \<lparr>title = Some ''Example Domain'', metaDescription = None, h1 = Null, status = 200\<rparr>)"
    by (simp add: handler_eval_defs refused_then_page_def eval_defs)
  show ?thesis
    using missing_fields_are_null[OF a, of example_url None 1 fresh http_prefix
        refused_then_page] b v k c d
    by auto
qed

text \<open>
  C7. When the work resolves with a result before the deadline, the handler answers 200
  with that result as the body, and its \<^verbatim>\<open>status\<close> field is 200. Every answer of the
  handler is a 200 with a scrape result whose \<^verbatim>\<open>status\<close> is 200, or one of the three
  error answers.
\<close>

theorem handler_responses:
  "(isValidHttpUrl url \<longrightarrow>
      fst (overallPromise url ua eng (import_playwright w)) = Inr r \<longrightarrow>
      clock (snd (overallPromise url ua eng (import_playwright w))) - clock w < GLOBAL_TIMEOUT_MS \<longrightarrow>
      fst (handler isValidHttpUrl eng url ua w) = send 200 (Result_body r) \<and> status r = 200) \<and>
   ((\<exists>r'. fst (handler isValidHttpUrl eng url ua w) = send 200 (Result_body r') \<and> status r' = 200) \<or>
    fst (handler isValidHttpUrl eng url ua w) = send 400 (Error_body ''Invalid URL'' None) \<or>
    fst (handler isValidHttpUrl eng url ua w) = send 504 (Error_body ''Timeout'' None) \<or>
    (\<exists>msg. fst (handler isValidHttpUrl eng url ua w)
              = send 500 (Error_body ''Scraping failed'' (Some msg))))"
proof -
  have clk: "clock (import_playwright w) = clock w"
    by (simp add: import_playwright_def engine_call_def)
  have 1: "isValidHttpUrl url \<Longrightarrow>
      fst (overallPromise url ua eng (import_playwright w)) = Inr r \<Longrightarrow>
      clock (snd (overallPromise url ua eng (import_playwright w))) - clock w < GLOBAL_TIMEOUT_MS \<Longrightarrow>
      fst (handler isValidHttpUrl eng url ua w) = send 200 (Result_body r) \<and> status r = 200"
    using overallPromise_status[of url ua eng "import_playwright w" r]
    by (simp add: handler_def promise_race_def clk Let_def)
  have 2: "(\<exists>r'. fst (handler isValidHttpUrl eng url ua w) = send 200 (Result_body r') \<and> status r' = 200) \<or>
    fst (handler isValidHttpUrl eng url ua w) = send 400 (Error_body ''Invalid URL'' None) \<or>
    fst (handler isValidHttpUrl eng url ua w) = send 504 (Error_body ''Timeout'' None) \<or>
    (\<exists>msg. fst (handler isValidHttpUrl eng url ua w)
              = send 500 (Error_body ''Scraping failed'' (Some msg)))"
  proof (cases "isValidHttpUrl url")
    case False
    then show ?thesis by (simp add: handler_def)
  next
    case True
    show ?thesis
    proof (cases "promise_race (clock (import_playwright w))
                    (overallPromise url ua eng (import_playwright w))")
      case (Inr r')
      then have "fst (overallPromise url ua eng (import_playwright w)) = Inr r'"
        by (simp add: promise_race_def split: if_splits)
      then have "status r' = 200" by (rule overallPromise_status)
      then show ?thesis using True Inr by (auto simp add: handler_def Let_def)
    next
      case (Inl err)
      then show ?thesis using True by (auto simp add: handler_def Let_def)
    qed
  qed
  from 1 2 show ?thesis by blast
qed

theorem handler_responses_witness:
  "fst (handler http_prefix (\<lambda>n. example_page) example_url None fresh)
     = send 200 (Result_body
         \<lparr>title = Some ''Example Domain'', metaDescription = None, h1 = Null, status = 200\<rparr>)"
proof -
  have a: "http_prefix example_url" by (simp add: http_prefix_def example_url_def)
  have b: "fst (overallPromise example_url None (\<lambda>n. example_page) (import_playwright fresh))
     = Inr \<lparr>title = Some ''Example Domain'', metaDescription = None, h1 = Null, status = 200\<rparr>"
    by (simp add: overallPromise_unroll import_playwright_def eval_defs)
  have c: "clock (snd (overallPromise example_url None (\<lambda>n. example_page) (import_playwright fresh)))
             - clock fresh < GLOBAL_TIMEOUT_MS"
    by (simp add: overallPromise_unroll import_playwright_def GLOBAL_TIMEOUT_MS_def eval_defs)
  show ?thesis
    using handler_responses[of http_prefix example_url None "\<lambda>n. example_page" fresh
        "\<lparr>title = Some ''Example Domain'', metaDescription = None, h1 = Null, status = 200\<rparr>"]
      a b c by blast
qed

text \<open>
  C8. When the first attempt fails, the retry loop runs the second attempt from the world
  the first attempt left. In the trace of the loop every engine call of attempt 1 comes
  before every call of attempt 2 and is made no later than the time attempt 1 settled;
  attempt 2 launches its browser at exactly that time, and makes every other call no
  earlier.
\<close>

theorem attempts_sequential:
  assumes "fst (attemptScrape url ua (eng 1) 1 w) = Inl e1"
  shows "overallPromise url ua eng w
           = attemptScrape url ua (eng 2) 2 (snd (attemptScrape url ua (eng 1) 1 w)) \<and>
         (\<exists>evs2. new_events w (snd (overallPromise url ua eng w))
              = new_events w (snd (attemptScrape url ua (eng 1) 1 w))
                @ \<lparr>at = clock (snd (attemptScrape url ua (eng 1) 1 w)), by_attempt = 2,
                    call = Launch\<rparr> # evs2
            \<and> (\<forall>ev\<in>set (new_events w (snd (attemptScrape url ua (eng 1) 1 w))).
                  by_attempt ev = 1 \<and> at ev \<le> clock (snd (attemptScrape url ua (eng 1) 1 w)))
            \<and> (\<forall>ev\<in>set evs2.
                  by_attempt ev = 2 \<and> clock (snd (attemptScrape url ua (eng 1) 1 w)) \<le> at ev))"
proof -
  have ov: "overallPromise url ua eng w
           = attemptScrape url ua (eng 2) 2 (snd (attemptScrape url ua (eng 1) 1 w))"
    using retry_loop_then_second assms by blast
  show ?thesis
    unfolding ov
    using two_attempts_trace[where w = w and url = url and ua = ua and e = "eng 1" and n = 1
          and e' = "eng 2" and n' = 2]
    by blast
qed

theorem attempts_sequential_witness:
  "overallPromise example_url None refused_then_timeout fresh
     = attemptScrape example_url None navigation_timeout 2
         (snd (attemptScrape example_url None refused 1 fresh)) \<and>
   clock (snd (attemptScrape example_url None refused 1 fresh)) = 490 \<and>
   \<lparr>at = 490, by_attempt = 2, call = Launch\<rparr>
     \<in> set (new_events fresh (snd (overallPromise example_url None refused_then_timeout fresh)))"
proof -
  have a: "fst (attemptScrape example_url None (refused_then_timeout 1) 1 fresh)
      = Inl (Error ''page.goto: net::ERR_CONNECTION_REFUSED'')"
    by (simp add: eval_defs)
  have b: "refused_then_timeout 1 = refused" "refused_then_timeout 2 = navigation_timeout"
    by (simp_all add: refused_then_timeout_def)
  have c: "clock (snd (attemptScrape example_url None refused 1 fresh)) = 490"
    by (simp add: eval_defs)
  show ?thesis
    using attempts_sequential[of example_url None refused_then_timeout fresh, OF a]
    unfolding b c by auto
qed

text \<open>
  C9. For every validator, engine, url, user agent and starting world, the handlers of the
  two route files send the same response and leave worlds that differ in the console
  only: the same engine calls at the same times, and the same browsers still open.
\<close>

theorem routes_equivalent:
  "fst (handler isValidHttpUrl eng url ua w) = fst (handler_part_001 isValidHttpUrl eng url ua w) \<and>
   quiet (snd (handler isValidHttpUrl eng url ua w))
     = quiet (snd (handler_part_001 isValidHttpUrl eng url ua w))"
proof (cases "isValidHttpUrl url")
  case False
  then show ?thesis by (simp add: handler_def handler_part_001_def)
next
  case True
  define w1 where "w1 = import_playwright w"
  define s where "s = overallPromise url ua eng w1"
  define s' where "s' = overallPromise_part_001 url ua eng w1"
  have "fst s = fst s'" and q: "quiet (snd s) = quiet (snd s')"
    using overallPromise_sim[of url ua eng] unfolding sim_def s_def s'_def by blast+
  moreover from q have "clock (snd s) = clock (snd s')" by (simp add: quiet_eq_iff)
  ultimately have race: "promise_race (clock w1) s = promise_race (clock w1) s'"
    by (simp add: promise_race_def)
  have qc: "\<And>l v. quiet (snd (console_write l v)) = quiet v"
    by (simp add: console_write_def quiet_def)
  show ?thesis
    using True race q
    by (simp add: handler_def handler_part_001_def Let_def w1_def[symmetric] s_def[symmetric]
        s'_def[symmetric] qc split: sum.splits)
qed



end
